theory Spec2Isabelle
  imports Main
begin

section \<open>Strings and characters\<close>

text \<open>
  JavaScript strings are sequences of code units. They are modelled by \<open>string\<close>
  (lists of 8-bit characters), so the development speaks about text whose code units
  are below 256; \<open>code\<close> reads a character as its code unit.
\<close>

definition nl :: char where
  "nl = CHR 0x0A"

definition bs :: char where
  "bs = CHR 0x5C"

definition code :: "char \<Rightarrow> nat" where
  "code c = of_char c"

text \<open>\<open>str.substring(i, j)\<close> for \<open>i \<le> j\<close>.\<close>

definition substring :: "string \<Rightarrow> nat \<Rightarrow> nat \<Rightarrow> string" where
  "substring s i j = take (j - i) (drop i s)"

text \<open>\<open>Array.prototype.join\<close> on an array of strings.\<close>

fun join :: "string \<Rightarrow> string list \<Rightarrow> string" where
  "join sep [] = []"
| "join sep [x] = x"
| "join sep (x # y # ys) = x @ sep @ join sep (y # ys)"

text \<open>\<open>str.split("\n")\<close>: the segments between newlines; never the empty array.\<close>

fun split_nl :: "string \<Rightarrow> string list" where
  "split_nl [] = [[]]"
| "split_nl (c # cs) =
     (if c = nl then [] # split_nl cs
      else (case split_nl cs of [] \<Rightarrow> [[c]] | l # ls \<Rightarrow> (c # l) # ls))"

text \<open>\<open>text.lastIndexOf("\n")\<close>, with \<open>None\<close> for the result \<open>-1\<close>.\<close>

fun lastIndexOf :: "string \<Rightarrow> char \<Rightarrow> nat option" where
  "lastIndexOf [] a = None"
| "lastIndexOf (c # cs) a =
     (case lastIndexOf cs a of
        Some p \<Rightarrow> Some (Suc p)
      | None \<Rightarrow> (if c = a then Some 0 else None))"

text \<open>Decimal rendering of a number inside a template literal.\<close>

fun show_nat :: "nat \<Rightarrow> string" where
  "show_nat n =
     (if n < 10 then [char_of (48 + n)]
      else show_nat (n div 10) @ [char_of (48 + n mod 10)])"

declare show_nat.simps [simp del]

section \<open>The regular-expression engine\<close>

text \<open>
  \<open>buildLexerRegExp\<close> and \<open>matchNext\<close> call the host's \<open>RegExp\<close>: the constructor on a
  pattern text with the flags \<open>"sy"\<close>, and \<open>exec\<close>. This section models that engine for
  a fragment of the pattern language: literal characters, escapes, character
  classes, the dot, groups (capturing, non-capturing, named), alternation and the
  greedy quantifiers \<open>*\<close>, \<open>+\<close>, \<open>?\<close>. Pattern text outside the fragment is reported
  as \<open>Unsupported_Pattern\<close>, about which nothing is claimed.
\<close>

subsection \<open>Patterns and backtracking matching\<close>

datatype node =
    Empty
  | Chr char
  | Class bool "(char \<times> char) list"
  | Seq node node
  | Alt node node
  | Star node
  | Plus node
  | Opt node
  | Group string node

text \<open>
  \<open>Class neg rs\<close> is a character class: the ranges \<open>rs\<close>, negated when \<open>neg\<close>.
  \<open>Group n r\<close> is the named capturing group \<open>(?<n>r)\<close>. Unnamed and non-capturing
  groups need no node: only \<open>match[0]\<close> and \<open>match.groups\<close> are read by the lexer.
\<close>

fun in_ranges :: "(char \<times> char) list \<Rightarrow> char \<Rightarrow> bool" where
  "in_ranges [] c = False"
| "in_ranges ((lo, hi) # rs) c = ((code lo \<le> code c \<and> code c \<le> code hi) \<or> in_ranges rs c)"

text \<open>The group names of a pattern, in the order of their opening parentheses.\<close>

fun names :: "node \<Rightarrow> string list" where
  "names Empty = []"
| "names (Chr a) = []"
| "names (Class neg rs) = []"
| "names (Seq r1 r2) = names r1 @ names r2"
| "names (Alt r1 r2) = names r1 @ names r2"
| "names (Star r) = names r"
| "names (Plus r) = names r"
| "names (Opt r) = names r"
| "names (Group n r) = n # names r"

text \<open>
  Captures: the named groups that are currently defined, with the text each captured
  (the most recent binding first).
\<close>

type_synonym caps = "(string \<times> string) list"

definition clear :: "string list \<Rightarrow> caps \<Rightarrow> caps" where
  "clear ns c = filter (\<lambda>p. fst p \<notin> set ns) c"

fun weight :: "node \<Rightarrow> nat" where
  "weight Empty = 0"
| "weight (Chr a) = 0"
| "weight (Class neg rs) = 0"
| "weight (Seq r1 r2) = Suc (weight r1 + weight r2)"
| "weight (Alt r1 r2) = Suc (weight r1 + weight r2)"
| "weight (Star r) = Suc (weight r)"
| "weight (Plus r) = Suc (Suc (weight r))"
| "weight (Opt r) = Suc (weight r)"
| "weight (Group n r) = Suc (weight r)"

text \<open>
  \<open>run r s i c\<close> lists, in the order in which a backtracking matcher tries them, the
  ways in which \<open>r\<close> matches \<open>s\<close> starting at index \<open>i\<close> with captures \<open>c\<close>: each
  an end index with the captures at that point. Alternation tries its left side
  first; the quantifiers are greedy; an iteration of a quantified pattern starts with
  the captures of its groups cleared, and an iteration of \<open>*\<close> that consumed nothing is
  abandoned (for \<open>+\<close> that holds from the second iteration on).
  The test \<open>fst p \<le> i \<or> length s < fst p\<close> in the case of \<open>Star\<close> is that emptiness
  test: an end index of a match from \<open>i\<close> lies between \<open>i\<close> and \<open>length s\<close>
  (lemma \<open>run_bounds\<close>). The matcher is started at indices up to \<open>length s\<close> only:
  beyond the end, \<open>exec\<close> answers \<open>null\<close> without matching.
\<close>

function run :: "node \<Rightarrow> string \<Rightarrow> nat \<Rightarrow> caps \<Rightarrow> (nat \<times> caps) list" where
  "run Empty s i c = [(i, c)]"
| "run (Chr a) s i c = (if i < length s \<and> s ! i = a then [(Suc i, c)] else [])"
| "run (Class neg rs) s i c =
     (if i < length s \<and> in_ranges rs (s ! i) \<noteq> neg then [(Suc i, c)] else [])"
| "run (Seq r1 r2) s i c = concat (map (\<lambda>p. run r2 s (fst p) (snd p)) (run r1 s i c))"
| "run (Alt r1 r2) s i c = run r1 s i c @ run r2 s i c"
| "run (Group n r) s i c =
     map (\<lambda>p. (fst p, (n, substring s i (fst p)) # snd p)) (run r s i c)"
| "run (Star r) s i c =
     concat (map (\<lambda>p. if fst p \<le> i \<or> length s < fst p then []
                        else run (Star r) s (fst p) (snd p))
                 (run r s i (clear (names r) c)))
     @ [(i, c)]"
| "run (Plus r) s i c =
     concat (map (\<lambda>p. run (Star r) s (fst p) (snd p)) (run r s i (clear (names r) c)))"
| "run (Opt r) s i c =
     filter (\<lambda>p. fst p \<noteq> i) (run r s i (clear (names r) c)) @ [(i, c)]"
  by pat_completeness auto
termination
  by (relation "measures [\<lambda>(r, s, i, c). weight r, \<lambda>(r, s, i, c). length s - i]") auto

subsection \<open>Errors\<close>

record location =
  index :: nat
  line :: nat
  column :: nat

text \<open>The instance fields of the exported \<open>SyntaxError\<close> class.\<close>

record syntax_error =
  message :: string
  err_loc :: location
  err_src :: string

text \<open>
  What a call can throw: the built-in \<open>SyntaxError\<close> of the \<open>RegExp\<close> constructor,
  the built-in \<open>TypeError\<close> and \<open>RangeError\<close>, and the exported \<open>SyntaxError\<close> of
  this library. \<open>Unsupported_Pattern\<close> is not a JavaScript error: it marks pattern
  text outside the modelled fragment.
\<close>

datatype error =
    RegExp_SyntaxError
  | Unsupported_Pattern
  | TypeError
  | RangeError
  | Lexer_SyntaxError syntax_error

subsection \<open>Reading pattern text\<close>

text \<open>
  The pattern text is read one character at a time. A \<open>frame\<close> holds the disjunction
  being read: the alternatives already closed by \<open>|\<close> and the terms of the current
  alternative, both most recent first. The reader's state is a mode, the frame of the
  innermost open group and, for each enclosing group, the kind of the group opened in
  it and its own frame.
\<close>

datatype gkind = Capturing | NonCapturing | Named string

record frame =
  alts :: "node list"
  cur :: "node list"

datatype pmode =
    Normal
  | Quantified
  | Escape
  | GroupOpen
  | GroupQuestion
  | GroupName string
  | ClassOpen
  | InClass bool "(char \<times> char) list" "char option" bool
  | ClassEscape bool "(char \<times> char) list" "char option" bool

type_synonym pstate = "pmode \<times> frame \<times> (gkind \<times> frame) list"

fun seq :: "node list \<Rightarrow> node" where
  "seq [] = Empty"
| "seq [t] = t"
| "seq (t # ts) = Seq t (seq ts)"

fun alternation :: "node list \<Rightarrow> node" where
  "alternation [] = Empty"
| "alternation [a] = a"
| "alternation (a # as) = Alt a (alternation as)"

definition node_of :: "frame \<Rightarrow> node" where
  "node_of f = alternation (rev (seq (rev (cur f)) # alts f))"

definition push_term :: "node \<Rightarrow> frame \<Rightarrow> frame" where
  "push_term t f = f\<lparr>cur := t # cur f\<rparr>"

definition wrap :: "gkind \<Rightarrow> node \<Rightarrow> node" where
  "wrap g r = (case g of Named n \<Rightarrow> Group n r | _ \<Rightarrow> r)"

definition is_letter :: "char \<Rightarrow> bool" where
  "is_letter c = ((code CHR ''a'' \<le> code c \<and> code c \<le> code CHR ''z'')
                \<or> (code CHR ''A'' \<le> code c \<and> code c \<le> code CHR ''Z''))"

definition is_digit :: "char \<Rightarrow> bool" where
  "is_digit c = (code CHR ''0'' \<le> code c \<and> code c \<le> code CHR ''9'')"

definition id_start :: "char \<Rightarrow> bool" where
  "id_start c = (is_letter c \<or> c = CHR ''$'' \<or> c = CHR ''_'')"

definition id_part :: "char \<Rightarrow> bool" where
  "id_part c = (id_start c \<or> is_digit c)"

text \<open>A group name: an identifier (here over ASCII).\<close>

definition valid_group_name :: "string \<Rightarrow> bool" where
  "valid_group_name n = (case n of [] \<Rightarrow> False | c # cs \<Rightarrow> id_start c \<and> list_all id_part cs)"

definition digit_ranges :: "(char \<times> char) list" where
  "digit_ranges = [(CHR ''0'', CHR ''9'')]"

definition word_ranges :: "(char \<times> char) list" where
  "word_ranges = [(CHR ''a'', CHR ''z''), (CHR ''A'', CHR ''Z''), (CHR ''0'', CHR ''9''),
                  (CHR ''_'', CHR ''_'')]"

definition space_ranges :: "(char \<times> char) list" where
  "space_ranges = [(CHR 0x09, CHR 0x0D), (CHR '' '', CHR '' ''), (CHR 0xA0, CHR 0xA0)]"

text \<open>The character a control escape stands for.\<close>

definition control_escape :: "char \<Rightarrow> char option" where
  "control_escape c =
     (if c = CHR ''n'' then Some (CHR 0x0A)
      else if c = CHR ''t'' then Some (CHR 0x09)
      else if c = CHR ''r'' then Some (CHR 0x0D)
      else if c = CHR ''f'' then Some (CHR 0x0C)
      else if c = CHR ''v'' then Some (CHR 0x0B)
      else None)"

text \<open>An escape outside a character class.\<close>

definition escape_node :: "char \<Rightarrow> error + node" where
  "escape_node c =
     (if c = CHR ''d'' then Inr (Class False digit_ranges)
      else if c = CHR ''D'' then Inr (Class True digit_ranges)
      else if c = CHR ''w'' then Inr (Class False word_ranges)
      else if c = CHR ''W'' then Inr (Class True word_ranges)
      else if c = CHR ''s'' then Inr (Class False space_ranges)
      else if c = CHR ''S'' then Inr (Class True space_ranges)
      else (case control_escape c of
              Some a \<Rightarrow> Inr (Chr a)
            | None \<Rightarrow> if is_letter c \<or> is_digit c \<or> 128 \<le> code c then Inl Unsupported_Pattern
                      else Inr (Chr c)))"

definition flush :: "char option \<Rightarrow> (char \<times> char) list" where
  "flush pend = (case pend of None \<Rightarrow> [] | Some a \<Rightarrow> [(a, a)])"

text \<open>
  Inside a class: \<open>rs\<close> are the ranges read so far, \<open>pend\<close> the last single
  character (it may still become the lower end of a range) and \<open>dash\<close> whether a
  \<open>-\<close> followed it.
\<close>

definition class_atom :: "bool \<Rightarrow> (char \<times> char) list \<Rightarrow> char option \<Rightarrow> bool \<Rightarrow> char \<Rightarrow> error + pmode" where
  "class_atom neg rs pend dash c =
     (case (pend, dash) of
        (Some a, True) \<Rightarrow>
          if code c < code a then Inl RegExp_SyntaxError
          else Inr (InClass neg (rs @ [(a, c)]) None False)
      | _ \<Rightarrow> Inr (InClass neg (rs @ flush pend) (Some c) False))"

definition class_step :: "bool \<Rightarrow> (char \<times> char) list \<Rightarrow> char option \<Rightarrow> bool \<Rightarrow> frame \<Rightarrow> char \<Rightarrow> error + pmode \<times> frame" where
  "class_step neg rs pend dash f c =
     (if c = CHR '']'' then
        Inr (Normal,
             push_term (Class neg (rs @ flush pend @ (if dash then [(CHR ''-'', CHR ''-'')] else []))) f)
      else if c = bs then Inr (ClassEscape neg rs pend dash, f)
      else if c = CHR ''-'' \<and> pend \<noteq> None \<and> \<not> dash then Inr (InClass neg rs pend True, f)
      else (case class_atom neg rs pend dash c of
              Inl e \<Rightarrow> Inl e
            | Inr m \<Rightarrow> Inr (m, f)))"

definition class_escape_step :: "bool \<Rightarrow> (char \<times> char) list \<Rightarrow> char option \<Rightarrow> bool \<Rightarrow> char \<Rightarrow> error + pmode" where
  "class_escape_step neg rs pend dash c =
     (let set_of = (if c = CHR ''d'' then Some digit_ranges
                    else if c = CHR ''w'' then Some word_ranges
                    else if c = CHR ''s'' then Some space_ranges
                    else None)
      in case set_of of
           Some ds \<Rightarrow>
             Inr (InClass neg
                    (rs @ flush pend @ (if dash then [(CHR ''-'', CHR ''-'')] else []) @ ds)
                    None False)
         | None \<Rightarrow>
             (case control_escape c of
                Some a \<Rightarrow> class_atom neg rs pend dash a
              | None \<Rightarrow>
                  if c = CHR ''b'' then class_atom neg rs pend dash (CHR 0x08)
                  else if is_letter c \<or> is_digit c \<or> 128 \<le> code c then Inl Unsupported_Pattern
                  else class_atom neg rs pend dash c))"

definition quantify :: "(node \<Rightarrow> node) \<Rightarrow> frame \<Rightarrow> error + frame" where
  "quantify q f =
     (case cur f of
        [] \<Rightarrow> Inl RegExp_SyntaxError
      | t # ts \<Rightarrow> Inr (f\<lparr>cur := q t # ts\<rparr>))"

text \<open>A character where a term may start or a disjunction may continue.\<close>

definition normal_step :: "frame \<Rightarrow> (gkind \<times> frame) list \<Rightarrow> char \<Rightarrow> error + pstate" where
  "normal_step f ps c =
     (if c = CHR ''|'' then Inr (Normal, \<lparr>alts = seq (rev (cur f)) # alts f, cur = []\<rparr>, ps)
      else if c = CHR ''('' then Inr (GroupOpen, f, ps)
      else if c = CHR '')'' then
        (case ps of
           [] \<Rightarrow> Inl RegExp_SyntaxError
         | (g, parent) # ps' \<Rightarrow> Inr (Normal, push_term (wrap g (node_of f)) parent, ps'))
      else if c = CHR ''*'' then
        (case quantify Star f of Inl e \<Rightarrow> Inl e | Inr f' \<Rightarrow> Inr (Quantified, f', ps))
      else if c = CHR ''+'' then
        (case quantify Plus f of Inl e \<Rightarrow> Inl e | Inr f' \<Rightarrow> Inr (Quantified, f', ps))
      else if c = CHR ''?'' then
        (case quantify Opt f of Inl e \<Rightarrow> Inl e | Inr f' \<Rightarrow> Inr (Quantified, f', ps))
      else if c = CHR ''['' then Inr (ClassOpen, f, ps)
      else if c = bs then Inr (Escape, f, ps)
      else if c = CHR ''.'' then Inr (Normal, push_term (Class True []) f, ps)
      else if c = CHR ''^'' \<or> c = CHR ''$'' \<or> c = CHR ''{'' \<or> c = CHR ''}'' then
        Inl Unsupported_Pattern
      else Inr (Normal, push_term (Chr c) f, ps))"

definition open_group :: "gkind \<Rightarrow> frame \<Rightarrow> (gkind \<times> frame) list \<Rightarrow> pstate" where
  "open_group g f ps = (Normal, \<lparr>alts = [], cur = []\<rparr>, (g, f) # ps)"

fun pstep :: "pstate \<Rightarrow> char \<Rightarrow> error + pstate" where
  "pstep (Normal, f, ps) c = normal_step f ps c"
| "pstep (Quantified, f, ps) c =
     (if c = CHR ''*'' \<or> c = CHR ''+'' then Inl RegExp_SyntaxError
      else if c = CHR ''?'' then Inl Unsupported_Pattern
      else normal_step f ps c)"
| "pstep (Escape, f, ps) c =
     (case escape_node c of Inl e \<Rightarrow> Inl e | Inr t \<Rightarrow> Inr (Normal, push_term t f, ps))"
| "pstep (GroupOpen, f, ps) c =
     (if c = CHR ''?'' then Inr (GroupQuestion, f, ps)
      else (case open_group Capturing f ps of (m, f', ps') \<Rightarrow> normal_step f' ps' c))"
| "pstep (GroupQuestion, f, ps) c =
     (if c = CHR '':'' then Inr (open_group NonCapturing f ps)
      else if c = CHR ''<'' then Inr (GroupName [], f, ps)
      else if c = CHR ''='' \<or> c = CHR ''!'' \<or> c = CHR ''-'' \<or> is_letter c then
        Inl Unsupported_Pattern
      else Inl RegExp_SyntaxError)"
| "pstep (GroupName n, f, ps) c =
     (if n = [] \<and> (c = CHR ''='' \<or> c = CHR ''!'') then Inl Unsupported_Pattern
      else if c = CHR ''>'' then
        (if list_ex (\<lambda>a. a = bs \<or> 128 \<le> code a) n then Inl Unsupported_Pattern
         else if valid_group_name n then Inr (open_group (Named n) f ps)
         else Inl RegExp_SyntaxError)
      else Inr (GroupName (n @ [c]), f, ps))"
| "pstep (ClassOpen, f, ps) c =
     (if c = CHR ''^'' then Inr (InClass True [] None False, f, ps)
      else (case class_step False [] None False f c of
              Inl e \<Rightarrow> Inl e
            | Inr (m, f') \<Rightarrow> Inr (m, f', ps)))"
| "pstep (InClass neg rs pend dash, f, ps) c =
     (case class_step neg rs pend dash f c of
        Inl e \<Rightarrow> Inl e
      | Inr (m, f') \<Rightarrow> Inr (m, f', ps))"
| "pstep (ClassEscape neg rs pend dash, f, ps) c =
     (case class_escape_step neg rs pend dash c of
        Inl e \<Rightarrow> Inl e
      | Inr m \<Rightarrow> Inr (m, f, ps))"

fun psteps :: "pstate \<Rightarrow> string \<Rightarrow> error + pstate" where
  "psteps st [] = Inr st"
| "psteps st (c # cs) = (case pstep st c of Inl e \<Rightarrow> Inl e | Inr st' \<Rightarrow> psteps st' cs)"

definition parse :: "string \<Rightarrow> error + node" where
  "parse p =
     (case psteps (Normal, \<lparr>alts = [], cur = []\<rparr>, []) p of
        Inl e \<Rightarrow> Inl e
      | Inr (m, f, ps) \<Rightarrow>
          if (m = Normal \<or> m = Quantified) \<and> ps = [] then Inr (node_of f)
          else Inl RegExp_SyntaxError)"

subsection \<open>RegExp objects\<close>

text \<open>
  A \<open>RegExp\<close> object as a program sees it through its \<open>source\<close> and \<open>flags\<close>
  properties, and the same object together with what \<open>exec\<close> uses: the pattern it
  matches with and the mutable \<open>lastIndex\<close>.
\<close>

record regexp =
  source :: string
  flags :: string

record compiled = regexp +
  matcher :: node
  lastIndex :: nat

text \<open>
  \<open>new RegExp(p, fl)\<close>. The constructor throws its \<open>SyntaxError\<close> on malformed pattern
  text. Only the flags \<open>"sy"\<close> (dotAll, sticky) are modelled: the dot of \<open>parse\<close>
  matches every character. A group name used twice is an error in some editions of the
  language and, between alternatives, none in others: such patterns are left out.
  The \<open>source\<close> of the new object is the pattern text (\<open>(?:)\<close> for the empty one; the
  escaping of \<open>/\<close> and of line terminators in it is not modelled, and \<open>lex\<close> does not
  read it).
\<close>

definition RegExp_new :: "string \<Rightarrow> string \<Rightarrow> error + compiled" where
  "RegExp_new p fl =
     (if fl \<noteq> ''sy'' then Inl Unsupported_Pattern
      else (case parse p of
              Inl e \<Rightarrow> Inl e
            | Inr r \<Rightarrow>
                if distinct (names r)
                then Inr \<lparr>source = (if p = [] then ''(?:)'' else p), flags = fl,
                          matcher = r, lastIndex = 0\<rparr>
                else Inl Unsupported_Pattern))"

text \<open>
  The array returned by \<open>exec\<close>: \<open>m0\<close> is \<open>match[0]\<close>; \<open>groups\<close> is \<open>match.groups\<close>,
  \<open>None\<close> for \<open>undefined\<close> (a pattern without named groups), otherwise every group
  name in order with the text it captured (\<open>None\<close> for \<open>undefined\<close>).
\<close>

record match =
  m0 :: string
  groups :: "(string \<times> string option) list option"

text \<open>
  \<open>R.exec(str)\<close> for a sticky \<open>R\<close>: the match must start at \<open>lastIndex\<close>; the first way
  of matching in backtracking order is taken. (The \<open>lastIndex\<close> that \<open>exec\<close> leaves
  behind is not modelled: \<open>matchNext\<close> assigns it before each call.)
\<close>

definition exec :: "compiled \<Rightarrow> string \<Rightarrow> match option" where
  "exec R str =
     (if length str < lastIndex R then None
      else (case run (matcher R) str (lastIndex R) [] of
              [] \<Rightarrow> None
            | (e, c) # _ \<Rightarrow>
                Some \<lparr>m0 = substring str (lastIndex R) e,
                      groups = (if names (matcher R) = [] then None
                                else Some (map (\<lambda>n. (n, map_of c n)) (names (matcher R))))\<rparr>))"

section \<open>The lexer\<close>

subsection \<open>Merging the regular expressions\<close>

text \<open>
  A pattern set is the object passed to \<open>lex\<close>, as the list \<open>Object.entries\<close> gives
  for it: token kinds with their \<open>RegExp\<close>.
\<close>

type_synonym pattern_set = "(string \<times> regexp) list"

text \<open>The regexp literal \<open>/p/\<close>, without flags.\<close>

definition literal :: "string \<Rightarrow> regexp" where
  "literal p = \<lparr>source = p, flags = []\<rparr>"

definition buildLexerRegExp :: "pattern_set \<Rightarrow> error + compiled" where
  "buildLexerRegExp regExps =
     RegExp_new
       (join ''|'' (map (\<lambda>(tokenKind, regexp). ''(?<'' @ tokenKind @ ''>'' @ source regexp @ '')'')
                        regExps))
       ''sy''"

subsection \<open>Finding the next token\<close>

record scan =
  kind :: "string option"
  "text" :: string

text \<open>A captured value is truthy when it is defined and not the empty string.\<close>

definition truthy :: "string option \<Rightarrow> bool" where
  "truthy v = (case v of None \<Rightarrow> False | Some t \<Rightarrow> t \<noteq> [])"

definition group_value :: "(string \<times> string option) list \<Rightarrow> string \<Rightarrow> string option" where
  "group_value g k = (case map_of g k of None \<Rightarrow> None | Some v \<Rightarrow> v)"

text \<open>
  \<open>matchNext\<close> returns \<open>null\<close> (\<open>Inr None\<close>) or a \<open>{kind, text}\<close> object, where \<open>kind\<close> is
  \<open>undefined\<close> (\<open>None\<close>) when \<open>find\<close> finds no truthy group. \<open>Object.keys\<close> throws a
  \<open>TypeError\<close> on \<open>undefined\<close>.
\<close>

definition matchNext :: "nat \<Rightarrow> string \<Rightarrow> compiled \<Rightarrow> error + scan option" where
  "matchNext idx str lexerRegExp =
     (case exec (lexerRegExp\<lparr>lastIndex := idx\<rparr>) str of
        None \<Rightarrow> Inr None
      | Some m \<Rightarrow>
          (case groups m of
             None \<Rightarrow> Inl TypeError
           | Some g \<Rightarrow>
               Inr (Some \<lparr>kind = find (\<lambda>k. truthy (group_value g k)) (map fst g),
                          text = m0 m\<rparr>)))"

subsection \<open>The source location and its advancement\<close>

definition nextLocation :: "location \<Rightarrow> string \<Rightarrow> location" where
  "nextLocation loc txt =
     \<lparr>index = index loc + length txt,
      line = line loc + length (filter (\<lambda>c. c = nl) txt),
      column = (case lastIndexOf txt nl of
                  Some lastNewlineIndex \<Rightarrow> length txt - lastNewlineIndex
                | None \<Rightarrow> column loc + length txt)\<rparr>"

subsection \<open>Errors\<close>

text \<open>
  \<open>new SyntaxError(loc, src, msg)\<close>. An index outside the array of lines reads
  \<open>undefined\<close>, which the template prints as such; \<open>" ".repeat\<close> throws a \<open>RangeError\<close>
  on a negative count.
\<close>

definition SyntaxError :: "location \<Rightarrow> string \<Rightarrow> string \<Rightarrow> error + syntax_error" where
  "SyntaxError loc src msg =
     (let lines = split_nl src;
          ln = (if 0 < line loc \<and> line loc - 1 < length lines then lines ! (line loc - 1)
                else ''undefined'')
      in if column loc = 0 then Inl RangeError
         else Inr \<lparr>message = show_nat (line loc) @ '':'' @ show_nat (column loc) @ '': '' @ msg
                               @ [nl] @ ln @ [nl] @ replicate (column loc - 1) (CHR '' '') @ ''^'',
                   err_loc = loc, err_src = src\<rparr>)"

subsection \<open>Putting it all together\<close>

record token = scan +
  loc :: location

text \<open>
  The \<open>while\<close> loop of \<open>lex\<close>. It need not terminate, so its result is an option:
  \<open>None\<close> when the loop runs forever, otherwise what \<open>lex\<close> throws or returns.
\<close>

partial_function (option) lex_loop :: "string \<Rightarrow> compiled \<Rightarrow> token list \<Rightarrow> location \<Rightarrow> (error + token list) option" where
  "lex_loop src lexerRegExp tokens l =
     (if index l < length src then
        (case matchNext (index l) src lexerRegExp of
           Inl e \<Rightarrow> Some (Inl e)
         | Inr None \<Rightarrow>
             (case SyntaxError l src ''Unknown token'' of
                Inl e \<Rightarrow> Some (Inl e)
              | Inr e \<Rightarrow> Some (Inl (Lexer_SyntaxError e)))
         | Inr (Some m) \<Rightarrow>
             lex_loop src lexerRegExp
               (tokens @ [\<lparr>kind = kind m, text = text m, loc = l\<rparr>])
               (nextLocation l (text m)))
      else Some (Inr tokens))"

text \<open>
  The same loop, given up (\<open>None\<close>) when it would need more than \<open>n\<close> executions
  of its body: \<open>lex_loop\<close> returns a result exactly when \<open>lex_loop_upto n\<close> returns
  it for some \<open>n\<close> (lemma \<open>lex_loop_iff_upto\<close>).
\<close>

fun lex_loop_upto :: "nat \<Rightarrow> string \<Rightarrow> compiled \<Rightarrow> token list \<Rightarrow> location \<Rightarrow> (error + token list) option" where
  "lex_loop_upto 0 src lexerRegExp tokens l =
     (if index l < length src then None else Some (Inr tokens))"
| "lex_loop_upto (Suc n) src lexerRegExp tokens l =
     (if index l < length src then
        (case matchNext (index l) src lexerRegExp of
           Inl e \<Rightarrow> Some (Inl e)
         | Inr None \<Rightarrow>
             (case SyntaxError l src ''Unknown token'' of
                Inl e \<Rightarrow> Some (Inl e)
              | Inr e \<Rightarrow> Some (Inl (Lexer_SyntaxError e)))
         | Inr (Some m) \<Rightarrow>
             lex_loop_upto n src lexerRegExp
               (tokens @ [\<lparr>kind = kind m, text = text m, loc = l\<rparr>])
               (nextLocation l (text m)))
      else Some (Inr tokens))"

definition origin :: location where
  "origin = \<lparr>index = 0, line = 1, column = 1\<rparr>"

definition lex_js :: "string \<Rightarrow> pattern_set \<Rightarrow> (error + token list) option" where
  "lex_js src regExps =
     (case buildLexerRegExp regExps of
        Inl e \<Rightarrow> Some (Inl e)
      | Inr lexerRegExp \<Rightarrow> lex_loop src lexerRegExp [] origin)"

text \<open>\<open>lex\<close> with its loop cut off after \<open>n\<close> executions of the body.\<close>

definition lex_upto :: "nat \<Rightarrow> string \<Rightarrow> pattern_set \<Rightarrow> (error + token list) option" where
  "lex_upto n src regExps =
     (case buildLexerRegExp regExps of
        Inl e \<Rightarrow> Some (Inl e)
      | Inr lexerRegExp \<Rightarrow> lex_loop_upto n src lexerRegExp [] origin)"

subsection \<open>The states of the loop\<close>

text \<open>
  \<open>reach src R tokens l\<close>: the loop of \<open>lex\<close> on \<open>src\<close> with the combined regexp \<open>R\<close>
  arrives at the head of the loop with the tokens \<open>tokens\<close> and the location \<open>l\<close>.
\<close>

inductive reach :: "string \<Rightarrow> compiled \<Rightarrow> token list \<Rightarrow> location \<Rightarrow> bool"
  for src :: string and R :: compiled where
  reach_start: "reach src R [] origin"
| reach_step: "reach src R tokens l \<Longrightarrow> index l < length src \<Longrightarrow>
     matchNext (index l) src R = Inr (Some m) \<Longrightarrow>
     reach src R (tokens @ [\<lparr>kind = kind m, text = text m, loc = l\<rparr>]) (nextLocation l (text m))"

text \<open>
  What the loop leaves with when it is at its head in a given state: the tokens when
  the source is used up, an error when \<open>matchNext\<close> throws or finds nothing; \<open>None\<close>
  when it goes on.
\<close>

definition leaves :: "string \<Rightarrow> compiled \<Rightarrow> token list \<Rightarrow> location \<Rightarrow> (error + token list) option" where
  "leaves src R tokens l =
     (if index l < length src then
        (case matchNext (index l) src R of
           Inl e \<Rightarrow> Some (Inl e)
         | Inr None \<Rightarrow>
             (case SyntaxError l src ''Unknown token'' of
                Inl e \<Rightarrow> Some (Inl e)
              | Inr e \<Rightarrow> Some (Inl (Lexer_SyntaxError e)))
         | Inr (Some m) \<Rightarrow> None)
      else Some (Inr tokens))"

subsection \<open>The running example\<close>

text \<open>The pattern set of the documentation: identifiers, numbers and white space.\<close>

definition example_patterns :: pattern_set where
  "example_patterns =
     [(''id'', literal ''[a-zA-Z_][a-zA-Z0-9_]*''),
      (''num'', literal (bs # ''d+'')),
      (''ws'', literal (bs # ''s+''))]"

text \<open>The combined regexp of the running example.\<close>

definition example_regexp :: compiled where
  "example_regexp =
     \<lparr>source = ''(?<id>[a-zA-Z_][a-zA-Z0-9_]*)|(?<num>'' @ [bs] @ ''d+)|(?<ws>'' @ [bs] @ ''s+)'',
      flags = ''sy'',
      matcher =
        Alt (Group ''id''
              (Seq (Class False [(CHR ''a'', CHR ''z''), (CHR ''A'', CHR ''Z''), (CHR ''_'', CHR ''_'')])
                   (Star (Class False [(CHR ''a'', CHR ''z''), (CHR ''A'', CHR ''Z''),
                                       (CHR ''0'', CHR ''9''), (CHR ''_'', CHR ''_'')]))))
         (Alt (Group ''num'' (Plus (Class False [(CHR ''0'', CHR ''9'')])))
              (Group ''ws'' (Plus (Class False [(CHR 0x09, CHR 0x0D), (CHR '' '', CHR '' ''),
                                                (CHR 0xA0, CHR 0xA0)])))),
      lastIndex = 0\<rparr>"

text \<open>
  \<open>before a b\<close>: the token \<open>a\<close> ends at or before the index where \<open>b\<close> starts, on a line
  that is not after the line of \<open>b\<close>.
\<close>

definition before :: "token \<Rightarrow> token \<Rightarrow> bool" where
  "before a b \<longleftrightarrow> index (loc a) + length (text a) \<le> index (loc b) \<and> line (loc a) \<le> line (loc b)"

text \<open>The errors that come from the regular-expression engine.\<close>

definition engine_error :: "error \<Rightarrow> bool" where
  "engine_error e \<longleftrightarrow> e = RegExp_SyntaxError \<or> e = Unsupported_Pattern"

text \<open>The index at which the line holding index \<open>i\<close> of \<open>s\<close> starts.\<close>

definition line_start :: "string \<Rightarrow> nat \<Rightarrow> nat" where
  "line_start s i = (case lastIndexOf (take i s) nl of None \<Rightarrow> 0 | Some p \<Rightarrow> Suc p)"

subsection \<open>The alternatives of a pattern set\<close>







declare run.simps(7) [simp del]

section \<open>Properties of the engine\<close>

lemma run_Star_mem:
  "p \<in> set (run (Star r) s i c) \<longleftrightarrow>
     p = (i, c) \<or> (\<exists>q \<in> set (run r s i (clear (names r) c)).
        i < fst q \<and> fst q \<le> length s \<and> p \<in> set (run (Star r) s (fst q) (snd q)))"
  apply (subst run.simps(7))
  apply (simp only: set_append set_concat set_map Un_iff)
  apply (auto simp: not_le not_less)
  done

text \<open>A match from \<open>i\<close> ends between \<open>i\<close> and the end of the string.\<close>

lemma run_bounds:
  "(e, c') \<in> set (run r s i c) \<Longrightarrow> i \<le> length s \<Longrightarrow> i \<le> e \<and> e \<le> length s"
proof (induction r s i c arbitrary: e c' rule: run.induct)
  case (4 r1 r2 s i c)
  from "4.prems"(1) obtain j d where q: "(j, d) \<in> set (run r1 s i c)"
    "(e, c') \<in> set (run r2 s j d)" by auto
  from "4.IH"(1) [OF q(1) "4.prems"(2)] have "i \<le> j" "j \<le> length s" by auto
  with "4.IH"(2) [of "(j, d)" e c'] q show ?case by auto
next
  case (7 r s i c)
  from "7.prems"(1) consider "(e, c') = (i, c)"
    | q where "q \<in> set (run r s i (clear (names r) c))" "i < fst q" "fst q \<le> length s"
        "(e, c') \<in> set (run (Star r) s (fst q) (snd q))"
    unfolding run_Star_mem [of "(e, c')" r s i c] by blast
  then show ?case
  proof cases
    case 1
    with "7.prems" show ?thesis by simp
  next
    case 2
    have "\<not> (fst q \<le> i \<or> length s < fst q)" using 2 by simp
    from "7.IH"(2) [OF 2(1) this 2(4) 2(3)] 2(2) show ?thesis by simp
  qed
next
  case (8 r s i c)
  from "8.prems"(1) obtain j d where q: "(j, d) \<in> set (run r s i (clear (names r) c))"
    "(e, c') \<in> set (run (Star r) s j d)" by auto
  from "8.IH"(1) [OF q(1) "8.prems"(2)] have "i \<le> j" "j \<le> length s" by auto
  with "8.IH"(2) [of "(j, d)" e c'] q show ?case by auto
qed (auto split: if_splits)

text \<open>
  An iteration of \<open>*\<close> is abandoned exactly when it consumed nothing: for an index
  inside the string, the test in \<open>run\<close> is the test for an empty iteration.
\<close>

lemma run_Star_emptiness:
  assumes "i \<le> length s"
  shows "run (Star r) s i c =
           concat (map (\<lambda>p. if fst p = i then [] else run (Star r) s (fst p) (snd p))
                       (run r s i (clear (names r) c)))
           @ [(i, c)]"
proof -
  have "(if fst p \<le> i \<or> length s < fst p then [] else run (Star r) s (fst p) (snd p))
          = (if fst p = i then [] else run (Star r) s (fst p) (snd p))"
    if "p \<in> set (run r s i (clear (names r) c))" for p
  proof -
    from that have "(fst p, snd p) \<in> set (run r s i (clear (names r) c))" by simp
    from run_bounds [OF this assms] show ?thesis by auto
  qed
  then have "map (\<lambda>p. if fst p \<le> i \<or> length s < fst p then [] else run (Star r) s (fst p) (snd p))
                 (run r s i (clear (names r) c))
           = map (\<lambda>p. if fst p = i then [] else run (Star r) s (fst p) (snd p))
                 (run r s i (clear (names r) c))"
    by (intro map_cong refl)
  then show ?thesis by (subst run.simps(7)) (simp only:)
qed

section \<open>Errors of the engine and of the lexer\<close>

lemma class_atom_error: "class_atom neg rs pend dash c = Inl e \<Longrightarrow> engine_error e"
  by (auto simp: class_atom_def engine_error_def split: option.splits bool.splits if_splits)

lemma normal_step_error: "normal_step f ps c = Inl e \<Longrightarrow> engine_error e"
  by (auto simp: normal_step_def quantify_def engine_error_def
           split: if_splits list.splits sum.splits)

lemma class_step_error: "class_step neg rs pend dash f c = Inl e \<Longrightarrow> engine_error e"
  by (auto simp: class_step_def split: if_splits sum.splits dest: class_atom_error)

lemma class_escape_step_error: "class_escape_step neg rs pend dash c = Inl e \<Longrightarrow> engine_error e"
  by (auto simp: class_escape_step_def Let_def engine_error_def
           split: if_splits option.splits dest: class_atom_error)

lemma pstep_error: "pstep st c = Inl e \<Longrightarrow> engine_error e"
proof (cases st)
  case (fields m f ps)
  assume "pstep st c = Inl e"
  with fields show ?thesis
    by (cases m)
       (auto simp: escape_node_def open_group_def engine_error_def
             split: if_splits sum.splits option.splits prod.splits
             dest: normal_step_error class_step_error class_escape_step_error)
qed

lemma psteps_error: "psteps st cs = Inl e \<Longrightarrow> engine_error e"
  by (induction cs arbitrary: st) (auto split: sum.splits dest: pstep_error)

lemma parse_error: "parse p = Inl e \<Longrightarrow> engine_error e"
  by (auto simp: parse_def engine_error_def split: sum.splits prod.splits if_splits
           dest: psteps_error)

lemma RegExp_new_error: "RegExp_new p fl = Inl e \<Longrightarrow> engine_error e"
  by (auto simp: RegExp_new_def engine_error_def split: if_splits sum.splits dest: parse_error)

lemma buildLexerRegExp_error: "buildLexerRegExp regExps = Inl e \<Longrightarrow> engine_error e"
  unfolding buildLexerRegExp_def by (rule RegExp_new_error)

lemma matchNext_error: "matchNext i s R = Inl e \<Longrightarrow> e = TypeError"
  by (auto simp: matchNext_def split: option.splits)

lemma SyntaxError_error: "SyntaxError l s msg = Inl e \<Longrightarrow> e = RangeError"
  by (auto simp: SyntaxError_def Let_def split: if_splits)


lemma SyntaxError_fields:
  "SyntaxError l src msg = Inr e \<Longrightarrow> err_loc e = l \<and> err_src e = src"
  by (auto simp: SyntaxError_def Let_def split: if_splits)

section \<open>The loop and its bounded form\<close>

lemma lex_loop_upto_Some:
  "lex_loop_upto n src R toks l = Some res \<Longrightarrow> lex_loop src R toks l = Some res"
proof (induction n arbitrary: toks l)
  case 0
  then show ?case by (subst lex_loop.simps) (simp split: if_splits)
next
  case (Suc n)
  show ?case
  proof (cases "index l < length src")
    case False
    with Suc.prems show ?thesis by (subst lex_loop.simps) simp
  next
    case True
    show ?thesis
    proof (cases "matchNext (index l) src R")
      case (Inl e)
      with True Suc.prems show ?thesis by (subst lex_loop.simps) simp
    next
      case (Inr mo)
      show ?thesis
      proof (cases mo)
        case None
        with Inr True Suc.prems show ?thesis by (subst lex_loop.simps) simp
      next
        case (Some m)
        with Inr True Suc.prems
        have "lex_loop_upto n src R (toks @ [\<lparr>kind = kind m, text = text m, loc = l\<rparr>])
                (nextLocation l (text m)) = Some res" by simp
        from Suc.IH [OF this] Some Inr True show ?thesis
          by (subst lex_loop.simps) simp
      qed
    qed
  qed
qed

lemma lex_loop_Some_upto:
  assumes "lex_loop src R toks l = Some res"
  shows "\<exists>n. lex_loop_upto n src R toks l = Some res"
proof (rule lex_loop.raw_induct
    [where P = "\<lambda>src R toks l res. \<exists>n. lex_loop_upto n src R toks l = Some res", OF _ assms])
  fix f src R toks l res
  assume IH: "\<And>a b c d y. f a b c d = Some y \<Longrightarrow> \<exists>n. lex_loop_upto n a b c d = Some y"
    and body: "(if index l < length src then
        (case matchNext (index l) src R of
           Inl e \<Rightarrow> Some (Inl e)
         | Inr None \<Rightarrow>
             (case SyntaxError l src ''Unknown token'' of
                Inl e \<Rightarrow> Some (Inl e)
              | Inr e \<Rightarrow> Some (Inl (Lexer_SyntaxError e)))
         | Inr (Some m) \<Rightarrow>
             f src R (toks @ [\<lparr>kind = kind m, text = text m, loc = l\<rparr>])
               (nextLocation l (text m)))
      else Some (Inr toks)) = Some res"
  show "\<exists>n. lex_loop_upto n src R toks l = Some res"
  proof (cases "index l < length src")
    case False
    with body have "lex_loop_upto 0 src R toks l = Some res" by simp
    then show ?thesis by blast
  next
    case True
    show ?thesis
    proof (cases "matchNext (index l) src R")
      case (Inl e)
      with True body have "lex_loop_upto (Suc 0) src R toks l = Some res" by simp
      then show ?thesis by blast
    next
      case (Inr mo)
      show ?thesis
      proof (cases mo)
        case None
        with Inr True body have "lex_loop_upto (Suc 0) src R toks l = Some res" by simp
        then show ?thesis by blast
      next
        case (Some m)
        with Inr True body
        have "f src R (toks @ [\<lparr>kind = kind m, text = text m, loc = l\<rparr>])
                (nextLocation l (text m)) = Some res" by simp
        from IH [OF this] obtain n where
          "lex_loop_upto n src R (toks @ [\<lparr>kind = kind m, text = text m, loc = l\<rparr>])
             (nextLocation l (text m)) = Some res" by blast
        with Some Inr True have "lex_loop_upto (Suc n) src R toks l = Some res" by simp
        then show ?thesis by blast
      qed
    qed
  qed
qed

lemma lex_loop_iff_upto:
  "lex_loop src R toks l = Some res \<longleftrightarrow> (\<exists>n. lex_loop_upto n src R toks l = Some res)"
  using lex_loop_Some_upto lex_loop_upto_Some by blast

lemma lex_loop_upto_leaves:
  "lex_loop_upto n src R toks l = Some res \<Longrightarrow> reach src R toks l \<Longrightarrow>
     \<exists>toks' l'. reach src R toks' l' \<and> leaves src R toks' l' = Some res"
proof (induction n arbitrary: toks l)
  case 0
  then have "leaves src R toks l = Some res" by (simp add: leaves_def split: if_splits)
  with 0 show ?case by blast
next
  case (Suc n)
  show ?case
  proof (cases "leaves src R toks l")
    case (Some r)
    with Suc.prems(1) have "r = res"
      by (auto simp: leaves_def split: if_splits sum.splits option.splits)
    with Some Suc.prems(2) show ?thesis by blast
  next
    case None
    then obtain m where m: "index l < length src" "matchNext (index l) src R = Inr (Some m)"
      by (auto simp: leaves_def split: if_splits sum.splits option.splits)
    with Suc.prems(1)
    have "lex_loop_upto n src R (toks @ [\<lparr>kind = kind m, text = text m, loc = l\<rparr>])
            (nextLocation l (text m)) = Some res" by simp
    moreover from Suc.prems(2) m
    have "reach src R (toks @ [\<lparr>kind = kind m, text = text m, loc = l\<rparr>]) (nextLocation l (text m))"
      by (rule reach_step)
    ultimately show ?thesis by (rule Suc.IH)
  qed
qed

lemma lex_loop_unfold_leaves:
  "leaves src R toks l = Some res \<Longrightarrow> lex_loop src R toks l = Some res"
  by (subst lex_loop.simps)
     (auto simp: leaves_def split: if_splits sum.splits option.splits)

lemma lex_loop_step:
  "index l < length src \<Longrightarrow> matchNext (index l) src R = Inr (Some m) \<Longrightarrow>
   lex_loop src R toks l =
   lex_loop src R (toks @ [\<lparr>kind = kind m, text = text m, loc = l\<rparr>]) (nextLocation l (text m))"
  by (subst lex_loop.simps) simp

lemma reach_lex_loop:
  "reach src R toks l \<Longrightarrow> lex_loop src R [] origin = lex_loop src R toks l"
proof (induction rule: reach.induct)
  case reach_start
  show ?case by simp
next
  case (reach_step tokens l m)
  then show ?case using lex_loop_step by simp
qed

lemma lex_loop_iff_reach:
  "lex_loop src R [] origin = Some res \<longleftrightarrow>
     (\<exists>toks l. reach src R toks l \<and> leaves src R toks l = Some res)"
proof
  assume "lex_loop src R [] origin = Some res"
  then obtain n where "lex_loop_upto n src R [] origin = Some res"
    using lex_loop_Some_upto by blast
  from lex_loop_upto_leaves [OF this reach_start]
  show "\<exists>toks l. reach src R toks l \<and> leaves src R toks l = Some res" .
next
  assume "\<exists>toks l. reach src R toks l \<and> leaves src R toks l = Some res"
  then obtain toks l where "reach src R toks l" "leaves src R toks l = Some res" by blast
  then show "lex_loop src R [] origin = Some res"
    using reach_lex_loop lex_loop_unfold_leaves by simp
qed

lemma lex_upto_Some:
  "lex_upto n src regExps = Some res \<Longrightarrow> lex_js src regExps = Some res"
  by (auto simp: lex_upto_def lex_js_def lex_loop_upto_Some split: sum.splits)

lemma lex_js_cases:
  assumes "lex_js src regExps = Some res"
  obtains e where "buildLexerRegExp regExps = Inl e" "res = Inl e"
  | R toks l where "buildLexerRegExp regExps = Inr R" "reach src R toks l"
      "leaves src R toks l = Some res"
  using assms by (auto simp: lex_js_def lex_loop_iff_reach split: sum.splits)

lemma lex_js_SyntaxError_cases:
  assumes "lex_js src regExps = Some (Inl (Lexer_SyntaxError e))"
  obtains R toks l where "buildLexerRegExp regExps = Inr R" "reach src R toks l"
    "index l < length src" "matchNext (index l) src R = Inr None"
    "SyntaxError l src ''Unknown token'' = Inr e"
proof -
  from assms show ?thesis
  proof (rule lex_js_cases)
    fix e' assume "buildLexerRegExp regExps = Inl e'" "Inl (Lexer_SyntaxError e) = Inl e'"
    with buildLexerRegExp_error [of regExps e'] show ?thesis by (auto simp: engine_error_def)
  next
    fix R toks l
    assume b: "buildLexerRegExp regExps = Inr R" and r: "reach src R toks l"
      and l: "leaves src R toks l = Some (Inl (Lexer_SyntaxError e))"
    from l have "index l < length src" "matchNext (index l) src R = Inr None"
      "SyntaxError l src ''Unknown token'' = Inr e"
      by (auto simp: leaves_def split: if_splits sum.splits option.splits
               dest: matchNext_error SyntaxError_error)
    with b r that show ?thesis by blast
  qed
qed


lemma example_build: "buildLexerRegExp example_patterns = Inr example_regexp"
  by code_simp

text \<open>
  The hazard of empty matches: when the loop arrives at a location before the end of
  the source where \<open>matchNext\<close> returns an empty text, it stays there forever.
\<close>

lemma nextLocation_empty: "nextLocation l [] = l"
  by (simp add: nextLocation_def)

lemma lex_loop_upto_stuck:
  "index l < length src \<Longrightarrow> matchNext (index l) src R = Inr (Some m) \<Longrightarrow> text m = [] \<Longrightarrow>
   lex_loop_upto n src R toks l = None"
  by (induction n arbitrary: toks) (simp_all add: nextLocation_empty)

lemma lex_loop_stuck:
  assumes "reach src R toks l" "index l < length src"
    "matchNext (index l) src R = Inr (Some m)" "text m = []"
  shows "lex_loop src R [] origin = None"
proof (cases "lex_loop src R toks l")
  case None
  with reach_lex_loop [OF assms(1)] show ?thesis by simp
next
  case (Some res)
  then obtain n where "lex_loop_upto n src R toks l = Some res"
    using lex_loop_Some_upto by blast
  with lex_loop_upto_stuck [OF assms(2,3,4), of n toks] show ?thesis by simp
qed

lemma lex_diverges_example: "lex_js ''y'' [(''a'', literal ''x*'')] = None"
proof -
  let ?R = "\<lparr>source = ''(?<a>x*)'', flags = ''sy'', matcher = Group ''a'' (Star (Chr CHR ''x'')),
             lastIndex = 0\<rparr>"
  have b: "buildLexerRegExp [(''a'', literal ''x*'')] = Inr ?R" by code_simp
  have m: "matchNext (index origin) ''y'' ?R = Inr (Some \<lparr>kind = None, text = []\<rparr>)" by code_simp
  have "lex_loop ''y'' ?R [] origin = None"
    by (rule lex_loop_stuck [OF reach_start _ m]) (simp_all add: origin_def)
  with b show ?thesis by (simp add: lex_js_def)
qed

section \<open>Coverage of the source\<close>

lemma matchNext_text:
  assumes "matchNext i s R = Inr (Some m)" and "i \<le> length s"
  shows "\<exists>e. i \<le> e \<and> e \<le> length s \<and> text m = substring s i e"
proof -
  from assms(1) obtain e c rest where r: "run (matcher R) s i [] = (e, c) # rest"
    and t: "text m = substring s i e"
    by (auto simp: matchNext_def exec_def split: if_splits list.splits option.splits)
  from r have "(e, c) \<in> set (run (matcher R) s i [])" by simp
  from run_bounds [OF this assms(2)] t show ?thesis by blast
qed

lemma substring_append:
  "i \<le> e \<Longrightarrow> e \<le> length s \<Longrightarrow> take i s @ substring s i e = take e s"
  unfolding substring_def
  by (metis add_diff_cancel_left' le_Suc_ex take_add)

text \<open>The tokens read so far spell the source up to the current index.\<close>

lemma reach_covers:
  "reach src R toks l \<Longrightarrow> index l \<le> length src \<and> concat (map text toks) = take (index l) src"
proof (induction rule: reach.induct)
  case reach_start
  show ?case by (simp add: origin_def)
next
  case (reach_step tokens l m)
  from matchNext_text [OF reach_step(3)] reach_step(2)
  obtain e where e: "index l \<le> e" "e \<le> length src" "text m = substring src (index l) e"
    by auto
  then have len: "length (text m) = e - index l" by (simp add: substring_def)
  with e have "index (nextLocation l (text m)) = e" by (simp add: nextLocation_def)
  moreover have "concat (map text tokens) @ text m = take e src"
    using reach_step.IH e substring_append by simp
  ultimately show ?case using e by simp
qed

text \<open>
  C1. Whenever \<open>lex\<close> returns a token sequence, the texts of the tokens, concatenated in
  order, are exactly the source.
\<close>

theorem lex_covers_source:
  "lex_js src regExps = Some (Inr tokens) \<Longrightarrow> concat (map text tokens) = src"
proof -
  assume "lex_js src regExps = Some (Inr tokens)"
  then obtain R toks l where r: "reach src R toks l" and l: "leaves src R toks l = Some (Inr tokens)"
    by (rule lex_js_cases) auto
  from l have "\<not> index l < length src" "toks = tokens"
    by (auto simp: leaves_def split: if_splits sum.splits option.splits)
  with reach_covers [OF r] show ?thesis by simp
qed

theorem lex_covers_source_witness:
  "lex_js ''one 42'' example_patterns =
     Some (Inr [\<lparr>kind = Some ''id'', text = ''one'', loc = \<lparr>index = 0, line = 1, column = 1\<rparr>\<rparr>,
                \<lparr>kind = Some ''ws'', text = '' '', loc = \<lparr>index = 3, line = 1, column = 4\<rparr>\<rparr>,
                \<lparr>kind = Some ''num'', text = ''42'', loc = \<lparr>index = 4, line = 1, column = 5\<rparr>\<rparr>])
   \<and> concat (map text
        [\<lparr>kind = Some ''id'', text = ''one'', loc = \<lparr>index = 0, line = 1, column = 1\<rparr>\<rparr>,
         \<lparr>kind = Some ''ws'', text = '' '', loc = \<lparr>index = 3, line = 1, column = 4\<rparr>\<rparr>,
         \<lparr>kind = Some ''num'', text = ''42'', loc = \<lparr>index = 4, line = 1, column = 5\<rparr>\<rparr>])
       = ''one 42''"
proof -
  have "lex_upto 3 ''one 42'' example_patterns =
     Some (Inr [\<lparr>kind = Some ''id'', text = ''one'', loc = \<lparr>index = 0, line = 1, column = 1\<rparr>\<rparr>,
                \<lparr>kind = Some ''ws'', text = '' '', loc = \<lparr>index = 3, line = 1, column = 4\<rparr>\<rparr>,
                \<lparr>kind = Some ''num'', text = ''42'', loc = \<lparr>index = 4, line = 1, column = 5\<rparr>\<rparr>])"
    by code_simp
  then have h: "lex_js ''one 42'' example_patterns =
     Some (Inr [\<lparr>kind = Some ''id'', text = ''one'', loc = \<lparr>index = 0, line = 1, column = 1\<rparr>\<rparr>,
                \<lparr>kind = Some ''ws'', text = '' '', loc = \<lparr>index = 3, line = 1, column = 4\<rparr>\<rparr>,
                \<lparr>kind = Some ''num'', text = ''42'', loc = \<lparr>index = 4, line = 1, column = 5\<rparr>\<rparr>])"
    by (rule lex_upto_Some)
  from lex_covers_source [OF h] h show ?thesis by blast
qed

section \<open>Advancing the location\<close>

lemma lastIndexOf_None: "lastIndexOf xs a = None \<longleftrightarrow> a \<notin> set xs"
  by (induction xs) (auto split: option.splits)

lemma lastIndexOf_Some:
  "lastIndexOf xs a = Some p \<Longrightarrow>
     p < length xs \<and> xs ! p = a \<and> (\<forall>q. p < q \<and> q < length xs \<longrightarrow> xs ! q \<noteq> a)"
proof (induction xs arbitrary: p)
  case Nil
  then show ?case by simp
next
  case (Cons x xs)
  show ?case
  proof (cases "lastIndexOf xs a")
    case None
    with Cons.prems have p: "p = 0" "x = a" by (auto split: if_splits)
    from None have "a \<notin> set xs" by (simp add: lastIndexOf_None)
    then have "\<forall>q. 0 < q \<and> q < Suc (length xs) \<longrightarrow> (x # xs) ! q \<noteq> a"
      by (auto simp: nth_Cons split: nat.splits)
    with p show ?thesis by simp
  next
    case (Some p')
    with Cons.prems have p: "p = Suc p'" by simp
    from Cons.IH [OF Some] have ih: "p' < length xs" "xs ! p' = a"
      "\<forall>q. p' < q \<and> q < length xs \<longrightarrow> xs ! q \<noteq> a" by auto
    have "\<forall>q. Suc p' < q \<and> q < Suc (length xs) \<longrightarrow> (x # xs) ! q \<noteq> a"
    proof (intro allI impI)
      fix q assume "Suc p' < q \<and> q < Suc (length xs)"
      then obtain q' where "q = Suc q'" "p' < q'" "q' < length xs" by (cases q) auto
      with ih(3) show "(x # xs) ! q \<noteq> a" by simp
    qed
    with p ih show ?thesis by simp
  qed
qed

lemma count_newlines: "length (filter (\<lambda>c. c = a) xs) = count_list xs a"
  by (induction xs) auto

text \<open>
  C2. \<open>nextLocation\<close> adds the length of the text to the index and the number of
  newlines in the text to the line; the column is the length of the text minus the
  offset of its last newline when it has one, and the old column plus the length of the
  text otherwise. The two computations of the documentation come out as stated.
\<close>

theorem nextLocation_rules:
  "index (nextLocation l t) = index l + length t
   \<and> line (nextLocation l t) = line l + count_list t nl
   \<and> (nl \<notin> set t \<longrightarrow> column (nextLocation l t) = column l + length t)
   \<and> (nl \<in> set t \<longrightarrow>
        (\<exists>p < length t. t ! p = nl \<and> (\<forall>q. p < q \<and> q < length t \<longrightarrow> t ! q \<noteq> nl)
           \<and> column (nextLocation l t) = length t - p))
   \<and> nextLocation \<lparr>index = 0, line = 1, column = 1\<rparr> (''aaa '' @ [nl] @ '' bb'')
        = \<lparr>index = 8, line = 2, column = 4\<rparr>
   \<and> nextLocation \<lparr>index = 0, line = 1, column = 1\<rparr> ''aa''
        = \<lparr>index = 2, line = 1, column = 3\<rparr>"
proof (intro conjI impI)
  show "index (nextLocation l t) = index l + length t" by (simp add: nextLocation_def)
  show "line (nextLocation l t) = line l + count_list t nl"
    by (simp add: nextLocation_def count_newlines)
  show "column (nextLocation l t) = column l + length t" if "nl \<notin> set t"
    using that by (simp add: nextLocation_def lastIndexOf_None [THEN iffD2])
  show "\<exists>p < length t. t ! p = nl \<and> (\<forall>q. p < q \<and> q < length t \<longrightarrow> t ! q \<noteq> nl)
           \<and> column (nextLocation l t) = length t - p" if "nl \<in> set t"
  proof -
    from that obtain p where p: "lastIndexOf t nl = Some p"
      using lastIndexOf_None [of t nl] by (cases "lastIndexOf t nl") auto
    from lastIndexOf_Some [OF p] p show ?thesis by (auto simp: nextLocation_def)
  qed
  show "nextLocation \<lparr>index = 0, line = 1, column = 1\<rparr> (''aaa '' @ [nl] @ '' bb'')
        = \<lparr>index = 8, line = 2, column = 4\<rparr>"
    by (simp add: nextLocation_def nl_def)
  show "nextLocation \<lparr>index = 0, line = 1, column = 1\<rparr> ''aa'' = \<lparr>index = 2, line = 1, column = 3\<rparr>"
    by (simp add: nextLocation_def nl_def)
qed

theorem nextLocation_rules_witness:
  "nl \<in> set (''aaa '' @ [nl] @ '' bb'')
   \<and> nl \<notin> set ''aa''
   \<and> column (nextLocation \<lparr>index = 0, line = 1, column = 1\<rparr> ''aa'') = 1 + length ''aa''
   \<and> (\<exists>p < length (''aaa '' @ [nl] @ '' bb'').
         (''aaa '' @ [nl] @ '' bb'') ! p = nl
         \<and> (\<forall>q. p < q \<and> q < length (''aaa '' @ [nl] @ '' bb'') \<longrightarrow> (''aaa '' @ [nl] @ '' bb'') ! q \<noteq> nl)
         \<and> column (nextLocation \<lparr>index = 0, line = 1, column = 1\<rparr> (''aaa '' @ [nl] @ '' bb''))
             = length (''aaa '' @ [nl] @ '' bb'') - p)"
proof -
  have a: "nl \<in> set (''aaa '' @ [nl] @ '' bb'')" by simp
  have b: "nl \<notin> set ''aa''" by (simp add: nl_def)
  from nextLocation_rules [of "\<lparr>index = 0, line = 1, column = 1\<rparr>" "''aaa '' @ [nl] @ '' bb''"] a
  have c: "\<exists>p < length (''aaa '' @ [nl] @ '' bb'').
         (''aaa '' @ [nl] @ '' bb'') ! p = nl
         \<and> (\<forall>q. p < q \<and> q < length (''aaa '' @ [nl] @ '' bb'') \<longrightarrow> (''aaa '' @ [nl] @ '' bb'') ! q \<noteq> nl)
         \<and> column (nextLocation \<lparr>index = 0, line = 1, column = 1\<rparr> (''aaa '' @ [nl] @ '' bb''))
             = length (''aaa '' @ [nl] @ '' bb'') - p" by blast
  from nextLocation_rules [of "\<lparr>index = 0, line = 1, column = 1\<rparr>" "''aa''"] b
  have d: "column (nextLocation \<lparr>index = 0, line = 1, column = 1\<rparr> ''aa'') = 1 + length ''aa''"
    by simp
  from a b c d show ?thesis by blast
qed

section \<open>The locations of the tokens\<close>

lemma nextLocation_index [simp]: "index (nextLocation l t) = index l + length t"
  by (simp add: nextLocation_def)

lemma nextLocation_line_le: "line l \<le> line (nextLocation l t)"
  by (simp add: nextLocation_def)

lemma nextLocation_column_pos: "1 \<le> column l \<Longrightarrow> 1 \<le> column (nextLocation l t)"
proof (cases "lastIndexOf t nl")
  case None
  assume "1 \<le> column l"
  with None show ?thesis by (simp add: nextLocation_def)
next
  case (Some p)
  from lastIndexOf_Some [OF Some] have "p < length t" by simp
  with Some show ?thesis by (simp add: nextLocation_def)
qed

lemma reach_locations:
  "reach src R toks l \<Longrightarrow>
     1 \<le> column l
     \<and> (\<forall>t \<in> set toks. 1 \<le> column (loc t) \<and> index (loc t) + length (text t) \<le> index l
            \<and> line (loc t) \<le> line l)
     \<and> sorted_wrt before toks
     \<and> (toks \<noteq> [] \<longrightarrow> loc (hd toks) = origin)"
proof (induction rule: reach.induct)
  case reach_start
  show ?case by (simp add: origin_def)
next
  case (reach_step tokens l m)
  let ?t = "\<lparr>kind = kind m, text = text m, loc = l\<rparr>"
  from reach_step.IH have ih: "1 \<le> column l"
    "\<forall>t \<in> set tokens. 1 \<le> column (loc t) \<and> index (loc t) + length (text t) \<le> index l
        \<and> line (loc t) \<le> line l"
    "sorted_wrt before tokens" "tokens \<noteq> [] \<longrightarrow> loc (hd tokens) = origin" by auto
  have 1: "1 \<le> column (nextLocation l (text m))"
    using ih(1) by (rule nextLocation_column_pos)
  have 2: "\<forall>t \<in> set (tokens @ [?t]). 1 \<le> column (loc t)
             \<and> index (loc t) + length (text t) \<le> index (nextLocation l (text m))
             \<and> line (loc t) \<le> line (nextLocation l (text m))"
    using ih(1,2) nextLocation_line_le [of l "text m"] by fastforce
  have 3: "sorted_wrt before (tokens @ [?t])"
    using ih(2,3) by (auto simp: sorted_wrt_append before_def)
  have 4: "loc (hd (tokens @ [?t])) = origin"
  proof (cases tokens)
    case Nil
    with reach_step.hyps(1) have "l = origin" by (auto elim: reach.cases)
    with Nil show ?thesis by simp
  next
    case (Cons a list)
    with ih(4) show ?thesis by simp
  qed
  from 1 2 3 4 show ?case by blast
qed

text \<open>
  C9. In a successful run the token locations have columns at least 1, indices that
  never decrease (and increase strictly when no token text is empty) and lines that
  never decrease; the first location is the origin.
\<close>

theorem lex_locations_monotone:
  "lex_js src regExps = Some (Inr tokens) \<Longrightarrow>
     (\<forall>t \<in> set tokens. 1 \<le> column (loc t))
     \<and> sorted (map (\<lambda>t. index (loc t)) tokens)
     \<and> sorted (map (\<lambda>t. line (loc t)) tokens)
     \<and> ((\<forall>t \<in> set tokens. text t \<noteq> []) \<longrightarrow> sorted_wrt (<) (map (\<lambda>t. index (loc t)) tokens))
     \<and> (tokens \<noteq> [] \<longrightarrow> loc (hd tokens) = \<lparr>index = 0, line = 1, column = 1\<rparr>)"
proof -
  assume "lex_js src regExps = Some (Inr tokens)"
  then obtain R toks l where r: "reach src R toks l" and l: "leaves src R toks l = Some (Inr tokens)"
    by (rule lex_js_cases) auto
  from l have "toks = tokens"
    by (auto simp: leaves_def split: if_splits sum.splits option.splits)
  with reach_locations [OF r] have col: "\<forall>t \<in> set tokens. 1 \<le> column (loc t)"
    and srt: "sorted_wrt before tokens" and hd: "tokens \<noteq> [] \<longrightarrow> loc (hd tokens) = origin"
    by auto
  have a: "sorted (map (\<lambda>t. index (loc t)) tokens)"
    unfolding sorted_wrt_map
    by (rule sorted_wrt_mono_rel [OF _ srt]) (simp add: before_def)
  have b: "sorted (map (\<lambda>t. line (loc t)) tokens)"
    unfolding sorted_wrt_map
    by (rule sorted_wrt_mono_rel [OF _ srt]) (simp add: before_def)
  have c: "sorted_wrt (<) (map (\<lambda>t. index (loc t)) tokens)" if "\<forall>t \<in> set tokens. text t \<noteq> []"
    unfolding sorted_wrt_map
  proof (rule sorted_wrt_mono_rel [OF _ srt])
    fix x y assume "x \<in> set tokens" "y \<in> set tokens" "before x y"
    with that have "text x \<noteq> []" "index (loc x) + length (text x) \<le> index (loc y)"
      by (auto simp: before_def)
    moreover from this(1) have "0 < length (text x)" by simp
    ultimately show "index (loc x) < index (loc y)" by linarith
  qed
  from col a b c hd show ?thesis by (simp add: origin_def)
qed

theorem lex_locations_monotone_witness:
  "lex_js ''one 42'' example_patterns =
     Some (Inr [\<lparr>kind = Some ''id'', text = ''one'', loc = \<lparr>index = 0, line = 1, column = 1\<rparr>\<rparr>,
                \<lparr>kind = Some ''ws'', text = '' '', loc = \<lparr>index = 3, line = 1, column = 4\<rparr>\<rparr>,
                \<lparr>kind = Some ''num'', text = ''42'', loc = \<lparr>index = 4, line = 1, column = 5\<rparr>\<rparr>])
   \<and> sorted_wrt (<) (map (\<lambda>t. index (loc t))
        [\<lparr>kind = Some ''id'', text = ''one'', loc = \<lparr>index = 0, line = 1, column = 1\<rparr>\<rparr>,
         \<lparr>kind = Some ''ws'', text = '' '', loc = \<lparr>index = 3, line = 1, column = 4\<rparr>\<rparr>,
         \<lparr>kind = Some ''num'', text = ''42'', loc = \<lparr>index = 4, line = 1, column = 5\<rparr>\<rparr>])"
proof -
  have "lex_upto 3 ''one 42'' example_patterns =
     Some (Inr [\<lparr>kind = Some ''id'', text = ''one'', loc = \<lparr>index = 0, line = 1, column = 1\<rparr>\<rparr>,
                \<lparr>kind = Some ''ws'', text = '' '', loc = \<lparr>index = 3, line = 1, column = 4\<rparr>\<rparr>,
                \<lparr>kind = Some ''num'', text = ''42'', loc = \<lparr>index = 4, line = 1, column = 5\<rparr>\<rparr>])"
    by code_simp
  then have h: "lex_js ''one 42'' example_patterns =
     Some (Inr [\<lparr>kind = Some ''id'', text = ''one'', loc = \<lparr>index = 0, line = 1, column = 1\<rparr>\<rparr>,
                \<lparr>kind = Some ''ws'', text = '' '', loc = \<lparr>index = 3, line = 1, column = 4\<rparr>\<rparr>,
                \<lparr>kind = Some ''num'', text = ''42'', loc = \<lparr>index = 4, line = 1, column = 5\<rparr>\<rparr>])"
    by (rule lex_upto_Some)
  from lex_locations_monotone [OF h] h show ?thesis by simp
qed

section \<open>Where the loop gives up\<close>


section \<open>The message of a syntax error\<close>

lemma lastIndexOf_append:
  "lastIndexOf (xs @ ys) a =
     (case lastIndexOf ys a of Some p \<Rightarrow> Some (length xs + p) | None \<Rightarrow> lastIndexOf xs a)"
  by (induction xs) (auto split: option.splits)

lemma line_start_le: "i \<le> length s \<Longrightarrow> line_start s i \<le> i"
proof (cases "lastIndexOf (take i s) nl")
  case None
  then show ?thesis by (simp add: line_start_def)
next
  case (Some p)
  assume "i \<le> length s"
  with lastIndexOf_Some [OF Some] Some show ?thesis by (simp add: line_start_def)
qed

text \<open>No newline between the start of the line and the index.\<close>

lemma line_start_no_newline:
  assumes "i \<le> length s" "line_start s i \<le> j" "j < i"
  shows "s ! j \<noteq> nl"
proof (cases "lastIndexOf (take i s) nl")
  case None
  then have "nl \<notin> set (take i s)" by (simp add: lastIndexOf_None)
  moreover from assms have "take i s ! j = s ! j" "j < length (take i s)" by simp_all
  ultimately show ?thesis by (metis nth_mem)
next
  case (Some p)
  with assms(2) have "p < j" by (simp add: line_start_def)
  with lastIndexOf_Some [OF Some] assms have "take i s ! j \<noteq> nl" by simp
  with assms show ?thesis by simp
qed

lemma line_start_after_newline:
  assumes "i \<le> length s" "0 < line_start s i"
  shows "s ! (line_start s i - 1) = nl"
proof (cases "lastIndexOf (take i s) nl")
  case None
  with assms show ?thesis by (simp add: line_start_def)
next
  case (Some p)
  from lastIndexOf_Some [OF Some] have "p < length (take i s)" "take i s ! p = nl" by auto
  then have "s ! p = nl" by simp
  with Some show ?thesis by (simp add: line_start_def)
qed

lemma split_nl_nonempty: "split_nl s \<noteq> []"
  by (induction s) (auto split: list.splits)

lemma split_nl_nth:
  "i \<le> length s \<Longrightarrow>
     count_list (take i s) nl < length (split_nl s)
     \<and> split_nl s ! count_list (take i s) nl = takeWhile (\<lambda>c. c \<noteq> nl) (drop (line_start s i) s)"
proof (induction s arbitrary: i)
  case Nil
  then show ?case by (simp add: line_start_def)
next
  case (Cons c cs)
  obtain l ls where sp: "split_nl cs = l # ls"
    using split_nl_nonempty [of cs] by (cases "split_nl cs") auto
  from Cons.IH [of 0] sp have l: "l = takeWhile (\<lambda>c. c \<noteq> nl) cs"
    by (simp add: line_start_def)
  show ?case
  proof (cases i)
    case 0
    with sp l show ?thesis by (simp add: line_start_def)
  next
    case (Suc i')
    with Cons.prems have i': "i' \<le> length cs" by simp
    from Cons.IH [OF i'] have ih: "count_list (take i' cs) nl < length (split_nl cs)"
      "split_nl cs ! count_list (take i' cs) nl
         = takeWhile (\<lambda>c. c \<noteq> nl) (drop (line_start cs i') cs)" by auto
    show ?thesis
    proof (cases "c = nl")
      case True
      have "line_start (c # cs) i = Suc (line_start cs i')"
        using True Suc by (simp add: line_start_def split: option.splits)
      with True Suc ih show ?thesis by simp
    next
      case False
      show ?thesis
      proof (cases "lastIndexOf (take i' cs) nl")
        case None
        then have "nl \<notin> set (take i' cs)" by (simp add: lastIndexOf_None)
        then have "count_list (take i' cs) nl = 0" by (simp add: count_list_0_iff)
        moreover have "line_start (c # cs) i = 0"
          using None False Suc by (simp add: line_start_def)
        ultimately show ?thesis using False Suc sp l by simp
      next
        case (Some p)
        then have "nl \<in> set (take i' cs)" using lastIndexOf_None [of "take i' cs" nl] by auto
        then have pos: "0 < count_list (take i' cs) nl"
          using count_list_0_iff [of "take i' cs" nl] by auto
        have "line_start (c # cs) i = Suc (line_start cs i')"
          using Some False Suc by (simp add: line_start_def)
        with False Suc sp ih pos show ?thesis by (auto simp: nth_Cons split: nat.splits)
      qed
    qed
  qed
qed

lemma reach_line_column:
  "reach src R toks l \<Longrightarrow>
     line l = 1 + count_list (take (index l) src) nl
     \<and> column l + line_start src (index l) = index l + 1"
proof (induction rule: reach.induct)
  case reach_start
  show ?case by (simp add: origin_def line_start_def)
next
  case (reach_step tokens l m)
  from reach_covers [OF reach_step(1)] have il: "index l \<le> length src" by simp
  from matchNext_text [OF reach_step(3) il]
  obtain e where e: "index l \<le> e" "e \<le> length src" "text m = substring src (index l) e"
    by auto
  then have len: "length (text m) = e - index l" by (simp add: substring_def)
  from e have tk: "take e src = take (index l) src @ text m"
    using substring_append by simp
  from e len have idx: "index (nextLocation l (text m)) = e" by simp
  from reach_step.IH have ih: "line l = 1 + count_list (take (index l) src) nl"
    "column l + line_start src (index l) = index l + 1" by auto
  have 1: "line (nextLocation l (text m)) = 1 + count_list (take e src) nl"
    using ih(1) by (simp add: tk nextLocation_def count_newlines)
  have 2: "column (nextLocation l (text m)) + line_start src e = e + 1"
  proof (cases "lastIndexOf (text m) nl")
    case None
    then have "line_start src e = line_start src (index l)"
      by (simp add: line_start_def tk lastIndexOf_append)
    with None ih(2) len e show ?thesis by (simp add: nextLocation_def)
  next
    case (Some p)
    from lastIndexOf_Some [OF Some] have p: "p < length (text m)" by simp
    from Some il have "line_start src e = Suc (index l + p)"
      by (simp add: line_start_def tk lastIndexOf_append)
    with Some p len e show ?thesis by (simp add: nextLocation_def)
  qed
  from 1 2 idx show ?case by simp
qed

lemma count_line_start:
  assumes "i \<le> length s"
  shows "count_list (take (line_start s i) s) nl = count_list (take i s) nl"
proof -
  let ?k = "line_start s i"
  from assms have k: "?k \<le> i" by (rule line_start_le)
  have len: "length (drop ?k (take i s)) = i - ?k" using assms by simp
  have "nl \<notin> set (drop ?k (take i s))"
  proof
    assume "nl \<in> set (drop ?k (take i s))"
    then obtain j where j: "j < length (drop ?k (take i s))" "drop ?k (take i s) ! j = nl"
      unfolding in_set_conv_nth by blast
    from j(1) len have lt: "?k + j < i" by simp
    with assms have "drop ?k (take i s) ! j = s ! (?k + j)" by simp
    with j(2) have "s ! (?k + j) = nl" by simp
    moreover have "?k \<le> ?k + j" by simp
    ultimately show False using line_start_no_newline [OF assms _ lt] by blast
  qed
  then have z: "count_list (drop ?k (take i s)) nl = 0"
    using count_list_0_iff [of "drop ?k (take i s)" nl] by blast
  have "take ?k (take i s) = take ?k s" using k by (simp add: min_def)
  with append_take_drop_id [of ?k "take i s"]
  have "take i s = take ?k s @ drop ?k (take i s)" by simp
  then have "count_list (take i s) nl
               = count_list (take ?k s) nl + count_list (drop ?k (take i s)) nl"
    by (metis count_list_append)
  with z show ?thesis by simp
qed

lemma takeWhile_covers:
  assumes "\<forall>j < n. j < length xs \<and> P (xs ! j)"
  shows "n \<le> length (takeWhile P xs)"
proof (rule ccontr)
  assume "\<not> n \<le> length (takeWhile P xs)"
  then have lt: "length (takeWhile P xs) < n" by simp
  with assms have "length (takeWhile P xs) < length xs" "P (xs ! length (takeWhile P xs))"
    by auto
  with nth_length_takeWhile [of P xs] show False by simp
qed

text \<open>
  The line that \<open>SyntaxError\<close> prints for a location the loop arrives at: the text
  between the newlines around the index, with the index \<open>column - 1\<close> characters into
  it.
\<close>

lemma reach_offending_line:
  assumes r: "reach src R toks l"
  shows "\<exists>pre post. src = pre @ split_nl src ! (line l - 1) @ post
           \<and> 0 < line l \<and> line l - 1 < length (split_nl src)
           \<and> nl \<notin> set (split_nl src ! (line l - 1))
           \<and> (pre = [] \<or> last pre = nl) \<and> (post = [] \<or> hd post = nl)
           \<and> line l = 1 + count_list pre nl
           \<and> index l = length pre + (column l - 1)
           \<and> column l - 1 \<le> length (split_nl src ! (line l - 1))"
proof -
  let ?i = "index l" and ?k = "line_start src (index l)"
  let ?ln = "takeWhile (\<lambda>c. c \<noteq> nl) (drop ?k src)"
  let ?pre = "take ?k src" and ?post = "dropWhile (\<lambda>c. c \<noteq> nl) (drop ?k src)"
  from reach_covers [OF r] have il: "?i \<le> length src" by simp
  from reach_line_column [OF r] have ln: "line l = 1 + count_list (take ?i src) nl"
    and col: "column l + ?k = ?i + 1" by auto
  from line_start_le [OF il] have k: "?k \<le> ?i" .
  from split_nl_nth [OF il] ln have sp: "line l - 1 < length (split_nl src)"
    "split_nl src ! (line l - 1) = ?ln" by auto
  have 1: "src = ?pre @ ?ln @ ?post" by simp
  have 2: "nl \<notin> set ?ln" by (auto dest: set_takeWhileD)
  have 3: "?pre = [] \<or> last ?pre = nl"
  proof (cases "?k = 0")
    case True
    then show ?thesis by simp
  next
    case False
    then obtain p where p: "?k = Suc p" by (cases ?k) auto
    with k il have "p < length src" by simp
    then have "take (Suc p) src = take p src @ [src ! p]" by (rule take_Suc_conv_app_nth)
    moreover from line_start_after_newline [OF il] p have "src ! p = nl" by simp
    ultimately show ?thesis using p by simp
  qed
  have 4: "?post = [] \<or> hd ?post = nl"
    using hd_dropWhile [of "\<lambda>c. c \<noteq> nl" "drop ?k src"] by auto
  have 5: "line l = 1 + count_list ?pre nl"
    using ln count_line_start [OF il] by simp
  have 6: "?i = length ?pre + (column l - 1)" using col k il by simp
  have "\<forall>j < ?i - ?k. j < length (drop ?k src) \<and> drop ?k src ! j \<noteq> nl"
  proof (intro allI impI)
    fix j assume j: "j < ?i - ?k"
    with il have "?k + j < length src" by simp
    moreover from line_start_no_newline [OF il, of "?k + j"] j have "src ! (?k + j) \<noteq> nl" by simp
    ultimately show "j < length (drop ?k src) \<and> drop ?k src ! j \<noteq> nl" by simp
  qed
  from takeWhile_covers [OF this] have "?i - ?k \<le> length ?ln" .
  with col have 7: "column l - 1 \<le> length ?ln" by simp
  from ln have 8: "0 < line l" by simp
  show ?thesis
    unfolding sp(2)
    using 1 2 3 4 5 6 7 8 sp(1) by blast
qed

text \<open>
  C5. The message of a \<open>SyntaxError\<close> thrown by \<open>lex\<close> is the line and the column of
  the error location, the text \<open>Unknown token\<close>, the source line that holds the error
  index, and a caret after \<open>column - 1\<close> spaces, which puts it under the character at
  the error index; the error carries the location and the source. The failure of the
  documentation has the message given there.
\<close>

theorem SyntaxError_message_shape:
  "(\<forall>e. lex_js src regExps = Some (Inl (Lexer_SyntaxError e)) \<longrightarrow>
      err_src e = src \<and> 1 \<le> line (err_loc e) \<and> 1 \<le> column (err_loc e)
      \<and> (\<exists>pre ln post. src = pre @ ln @ post \<and> nl \<notin> set ln
            \<and> (pre = [] \<or> last pre = nl) \<and> (post = [] \<or> hd post = nl)
            \<and> line (err_loc e) = 1 + count_list pre nl
            \<and> index (err_loc e) = length pre + (column (err_loc e) - 1)
            \<and> column (err_loc e) - 1 \<le> length ln
            \<and> message e = show_nat (line (err_loc e)) @ '':'' @ show_nat (column (err_loc e))
                 @ '': Unknown token'' @ [nl] @ ln @ [nl]
                 @ replicate (column (err_loc e) - 1) (CHR '' '') @ ''^''))
   \<and> lex_js ''one + 42'' example_patterns = Some (Inl (Lexer_SyntaxError
        \<lparr>message = ''1:5: Unknown token'' @ [nl] @ ''one + 42'' @ [nl] @ ''    ^'',
         err_loc = \<lparr>index = 4, line = 1, column = 5\<rparr>, err_src = ''one + 42''\<rparr>))"
proof (intro conjI allI impI)
  fix e assume "lex_js src regExps = Some (Inl (Lexer_SyntaxError e))"
  then obtain R toks l where r: "reach src R toks l"
    and s: "SyntaxError l src ''Unknown token'' = Inr e"
    by (rule lex_js_SyntaxError_cases)
  from SyntaxError_fields [OF s] have f: "err_loc e = l" "err_src e = src" by auto
  from reach_locations [OF r] have c: "1 \<le> column l" by simp
  from reach_offending_line [OF r] obtain pre post where
    o: "src = pre @ split_nl src ! (line l - 1) @ post"
       "0 < line l" "line l - 1 < length (split_nl src)"
       "nl \<notin> set (split_nl src ! (line l - 1))"
       "pre = [] \<or> last pre = nl" "post = [] \<or> hd post = nl"
       "line l = 1 + count_list pre nl"
       "index l = length pre + (column l - 1)"
       "column l - 1 \<le> length (split_nl src ! (line l - 1))" by blast
  from s c o(2,3) have m: "message e = show_nat (line l) @ '':'' @ show_nat (column l)
                 @ '': Unknown token'' @ [nl] @ split_nl src ! (line l - 1) @ [nl]
                 @ replicate (column l - 1) (CHR '' '') @ ''^''"
    by (auto simp: SyntaxError_def Let_def split: if_splits)
  from f show "err_src e = src" by simp
  from f o(2) show "1 \<le> line (err_loc e)" by simp
  from f c show "1 \<le> column (err_loc e)" by simp
  from o m show "\<exists>pre ln post. src = pre @ ln @ post \<and> nl \<notin> set ln
            \<and> (pre = [] \<or> last pre = nl) \<and> (post = [] \<or> hd post = nl)
            \<and> line (err_loc e) = 1 + count_list pre nl
            \<and> index (err_loc e) = length pre + (column (err_loc e) - 1)
            \<and> column (err_loc e) - 1 \<le> length ln
            \<and> message e = show_nat (line (err_loc e)) @ '':'' @ show_nat (column (err_loc e))
                 @ '': Unknown token'' @ [nl] @ ln @ [nl]
                 @ replicate (column (err_loc e) - 1) (CHR '' '') @ ''^''"
    unfolding f by blast
next
  have "lex_upto 3 ''one + 42'' example_patterns = Some (Inl (Lexer_SyntaxError
        \<lparr>message = ''1:5: Unknown token'' @ [nl] @ ''one + 42'' @ [nl] @ ''    ^'',
         err_loc = \<lparr>index = 4, line = 1, column = 5\<rparr>, err_src = ''one + 42''\<rparr>))"
    by code_simp
  then show "lex_js ''one + 42'' example_patterns = Some (Inl (Lexer_SyntaxError
        \<lparr>message = ''1:5: Unknown token'' @ [nl] @ ''one + 42'' @ [nl] @ ''    ^'',
         err_loc = \<lparr>index = 4, line = 1, column = 5\<rparr>, err_src = ''one + 42''\<rparr>))"
    by (rule lex_upto_Some)
qed

theorem SyntaxError_message_shape_witness:
  "lex_js ''one + 42'' example_patterns = Some (Inl (Lexer_SyntaxError
        \<lparr>message = ''1:5: Unknown token'' @ [nl] @ ''one + 42'' @ [nl] @ ''    ^'',
         err_loc = \<lparr>index = 4, line = 1, column = 5\<rparr>, err_src = ''one + 42''\<rparr>))
   \<and> (\<exists>pre ln post. ''one + 42'' = pre @ ln @ post \<and> nl \<notin> set ln
         \<and> (pre = [] \<or> last pre = nl) \<and> (post = [] \<or> hd post = nl)
         \<and> 1 = 1 + count_list pre nl
         \<and> 4 = length pre + (5 - 1)
         \<and> 5 - 1 \<le> length ln
         \<and> ''1:5: Unknown token'' @ [nl] @ ''one + 42'' @ [nl] @ ''    ^''
             = show_nat 1 @ '':'' @ show_nat 5 @ '': Unknown token'' @ [nl] @ ln @ [nl]
                 @ replicate (5 - 1) (CHR '' '') @ ''^'')"
proof -
  define e where "e = \<lparr>message = ''1:5: Unknown token'' @ [nl] @ ''one + 42'' @ [nl] @ ''    ^'',
         err_loc = \<lparr>index = 4, line = 1, column = 5\<rparr>, err_src = ''one + 42''\<rparr>"
  from SyntaxError_message_shape [of "''one + 42''" example_patterns]
  have h: "lex_js ''one + 42'' example_patterns = Some (Inl (Lexer_SyntaxError e))"
    unfolding e_def by blast
  with SyntaxError_message_shape [of "''one + 42''" example_patterns]
  have "\<exists>pre ln post. ''one + 42'' = pre @ ln @ post \<and> nl \<notin> set ln
            \<and> (pre = [] \<or> last pre = nl) \<and> (post = [] \<or> hd post = nl)
            \<and> line (err_loc e) = 1 + count_list pre nl
            \<and> index (err_loc e) = length pre + (column (err_loc e) - 1)
            \<and> column (err_loc e) - 1 \<le> length ln
            \<and> message e = show_nat (line (err_loc e)) @ '':'' @ show_nat (column (err_loc e))
                 @ '': Unknown token'' @ [nl] @ ln @ [nl]
                 @ replicate (column (err_loc e) - 1) (CHR '' '') @ ''^''"
    by blast
  then have "\<exists>pre ln post. ''one + 42'' = pre @ ln @ post \<and> nl \<notin> set ln
         \<and> (pre = [] \<or> last pre = nl) \<and> (post = [] \<or> hd post = nl)
         \<and> 1 = 1 + count_list pre nl
         \<and> 4 = length pre + (5 - 1)
         \<and> 5 - 1 \<le> length ln
         \<and> ''1:5: Unknown token'' @ [nl] @ ''one + 42'' @ [nl] @ ''    ^''
             = show_nat 1 @ '':'' @ show_nat 5 @ '': Unknown token'' @ [nl] @ ln @ [nl]
                 @ replicate (5 - 1) (CHR '' '') @ ''^''"
    unfolding e_def by simp
  with h show ?thesis unfolding e_def by blast
qed

section \<open>Termination\<close>

lemma lex_loop_upto_progress:
  assumes adv: "\<forall>toks l m. reach src R toks l \<and> index l < length src
                  \<and> matchNext (index l) src R = Inr (Some m) \<longrightarrow> text m \<noteq> []"
  shows "reach src R toks l \<Longrightarrow> length src - index l \<le> n \<Longrightarrow>
           \<exists>res. lex_loop_upto n src R toks l = Some res"
proof (induction n arbitrary: toks l)
  case 0
  then show ?case by simp
next
  case (Suc n)
  show ?case
  proof (cases "leaves src R toks l")
    case (Some res)
    then have "lex_loop_upto (Suc n) src R toks l = Some res"
      by (auto simp: leaves_def split: if_splits sum.splits option.splits)
    then show ?thesis by blast
  next
    case None
    then obtain m where m: "index l < length src" "matchNext (index l) src R = Inr (Some m)"
      by (auto simp: leaves_def split: if_splits sum.splits option.splits)
    let ?toks = "toks @ [\<lparr>kind = kind m, text = text m, loc = l\<rparr>]"
    let ?l = "nextLocation l (text m)"
    from Suc.prems(1) m have r: "reach src R ?toks ?l" by (rule reach_step)
    from adv Suc.prems(1) m have "text m \<noteq> []" by blast
    then have "0 < length (text m)" by simp
    with Suc.prems(2) m(1) have "length src - index ?l \<le> n"
      unfolding nextLocation_index by linarith
    from Suc.IH [OF r this] obtain res where "lex_loop_upto n src R ?toks ?l = Some res" ..
    with m have "lex_loop_upto (Suc n) src R toks l = Some res" by simp
    then show ?thesis by blast
  qed
qed

text \<open>
  C8 (as amended). When the combined regexp can be built and every match found at a
  location the loop arrives at is non-empty, the loop ends within \<open>length src\<close>
  executions of its body. On the empty source, \<open>lex\<close> returns no tokens without
  executing the body, for every pattern set from which the combined regexp can be built.
\<close>

theorem lex_terminates:
  "buildLexerRegExp regExps = Inr R \<Longrightarrow>
     ((\<forall>toks l m. reach src R toks l \<and> index l < length src
          \<and> matchNext (index l) src R = Inr (Some m) \<longrightarrow> text m \<noteq> [])
        \<longrightarrow> (\<exists>res. lex_upto (length src) src regExps = Some res \<and> lex_js src regExps = Some res))
     \<and> lex_upto 0 [] regExps = Some (Inr [])
     \<and> lex_js [] regExps = Some (Inr [])"
proof (intro conjI impI)
  assume b: "buildLexerRegExp regExps = Inr R"
  show e: "lex_upto 0 [] regExps = Some (Inr [])" using b by (simp add: lex_upto_def)
  then show "lex_js [] regExps = Some (Inr [])" by (rule lex_upto_Some)
  assume adv: "\<forall>toks l m. reach src R toks l \<and> index l < length src
          \<and> matchNext (index l) src R = Inr (Some m) \<longrightarrow> text m \<noteq> []"
  have "reach src R [] origin" by (rule reach_start)
  from lex_loop_upto_progress [OF adv this, of "length src"]
  obtain res where "lex_loop_upto (length src) src R [] origin = Some res" by auto
  with b have "lex_upto (length src) src regExps = Some res" by (simp add: lex_upto_def)
  with lex_upto_Some [OF this]
  show "\<exists>res. lex_upto (length src) src regExps = Some res \<and> lex_js src regExps = Some res"
    by blast
qed

theorem lex_terminates_witness:
  "buildLexerRegExp example_patterns = Inr example_regexp
   \<and> (\<exists>res. lex_upto (length ''42'') ''42'' example_patterns = Some res
          \<and> lex_js ''42'' example_patterns = Some res)"
proof -
  have m0: "matchNext 0 ''42'' example_regexp = Inr (Some \<lparr>kind = Some ''num'', text = ''42''\<rparr>)"
    by code_simp
  have m1: "matchNext 1 ''42'' example_regexp = Inr (Some \<lparr>kind = Some ''num'', text = ''2''\<rparr>)"
    by code_simp
  have adv: "\<forall>toks l m. reach ''42'' example_regexp toks l \<and> index l < length ''42''
          \<and> matchNext (index l) ''42'' example_regexp = Inr (Some m) \<longrightarrow> text m \<noteq> []"
  proof (intro allI impI)
    fix toks :: "token list" and l m
    assume a: "reach ''42'' example_regexp toks l \<and> index l < length ''42''
          \<and> matchNext (index l) ''42'' example_regexp = Inr (Some m)"
    then have "index l = 0 \<or> index l = 1" by auto
    with a m0 m1 show "text m \<noteq> []" by auto
  qed
  from lex_terminates [OF example_build, of "''42''"] adv example_build show ?thesis by blast
qed

text \<open>
  C8 as stated fails: the combined regexp cannot be built from a pattern set with the
  kind \<open>my-kind\<close>, and \<open>lex\<close> then throws on the empty source as on any other.
\<close>

theorem lex_empty_source_counterexample:
  "lex_js [] [(''my-kind'', literal ''a'')] = Some (Inl RegExp_SyntaxError)"
proof -
  have "lex_upto 0 [] [(''my-kind'', literal ''a'')] = Some (Inl RegExp_SyntaxError)"
    by code_simp
  then show ?thesis by (rule lex_upto_Some)
qed

section \<open>The empty pattern set\<close>

text \<open>
  C10 (as amended). For the empty pattern set the combined regexp is the empty pattern;
  it matches the empty string at index 0, but it has no named groups, so \<open>match.groups\<close>
  is \<open>undefined\<close> and \<open>matchNext\<close> throws a \<open>TypeError\<close>: on every non-empty source
  \<open>lex\<close> ends with that error in the first execution of the loop body.
\<close>

theorem lex_empty_patterns:
  "src \<noteq> [] \<Longrightarrow>
     (\<exists>R. buildLexerRegExp [] = Inr R \<and> matcher R = Empty
         \<and> exec (R\<lparr>lastIndex := 0\<rparr>) src = Some \<lparr>m0 = [], groups = None\<rparr>
         \<and> matchNext 0 src R = Inl TypeError)
     \<and> lex_upto 1 src [] = Some (Inl TypeError)
     \<and> lex_js src [] = Some (Inl TypeError)"
proof (intro conjI)
  assume s: "src \<noteq> []"
  have b: "buildLexerRegExp [] = Inr \<lparr>source = ''(?:)'', flags = ''sy'', matcher = Empty, lastIndex = 0\<rparr>"
    by code_simp
  let ?R = "\<lparr>source = ''(?:)'', flags = ''sy'', matcher = Empty, lastIndex = 0\<rparr>"
  have x: "exec (?R\<lparr>lastIndex := 0\<rparr>) src = Some \<lparr>m0 = [], groups = None\<rparr>"
    by (simp add: exec_def substring_def)
  then have m: "matchNext 0 src ?R = Inl TypeError" by (simp add: matchNext_def)
  from b x m show "\<exists>R. buildLexerRegExp [] = Inr R \<and> matcher R = Empty
         \<and> exec (R\<lparr>lastIndex := 0\<rparr>) src = Some \<lparr>m0 = [], groups = None\<rparr>
         \<and> matchNext 0 src R = Inl TypeError" by simp
  from s b m show u: "lex_upto 1 src [] = Some (Inl TypeError)"
    by (simp add: lex_upto_def origin_def)
  then show "lex_js src [] = Some (Inl TypeError)" by (rule lex_upto_Some)
qed

theorem lex_empty_patterns_witness:
  "''a'' \<noteq> [] \<and> lex_js ''a'' [] = Some (Inl TypeError)"
  using lex_empty_patterns [of "''a''"] by simp

text \<open>C10 as stated fails: on the source \<open>a\<close> the call returns (by throwing).\<close>

theorem lex_empty_patterns_counterexample:
  "lex_js ''a'' [] \<noteq> None"
proof -
  have "lex_upto 1 ''a'' [] = Some (Inl TypeError)" by code_simp
  then have "lex_js ''a'' [] = Some (Inl TypeError)" by (rule lex_upto_Some)
  then show ?thesis by simp
qed

section \<open>Reading the combined pattern text\<close>

lemma psteps_append:
  "psteps st (xs @ ys) = (case psteps st xs of Inl e \<Rightarrow> Inl e | Inr st' \<Rightarrow> psteps st' ys)"
  by (induction xs arbitrary: st) (auto split: sum.splits)














section \<open>Matching with an alternation of named groups\<close>
























section \<open>The scanner\<close>











section \<open>Syntax errors\<close>




section \<open>Kinds that are not group names\<close>

lemma psteps_Inl_append: "psteps st xs = Inl e \<Longrightarrow> psteps st (xs @ ys) = Inl e"
  by (simp add: psteps_append)








text \<open>
  A kind that starts with \<open>=\<close> or \<open>!\<close> turns its group into a lookbehind assertion,
  which is outside the fragment read here: nothing is claimed about such kinds.
\<close>

lemma build_lookbehind_kind:
  "buildLexerRegExp [(''=a'', literal ''x'')] = Inl Unsupported_Pattern"
  by code_simp


end
